theory Spec2Isabelle
  imports Main
begin

section \<open>Strings\<close>

text \<open>
  A JavaScript string is modelled as a \<open>string\<close>, one \<open>char\<close> per code unit, for code
  units below 256. A JavaScript number is modelled as a \<open>number\<close>: the value NaN, or a
  whole number of milliseconds.
\<close>

definition charCode :: "char \<Rightarrow> nat" where
  "charCode c = of_char c"

text \<open>White space of \<open>String.prototype.trim\<close> and of the regular expression class \<open>\s\<close>:
  tab, line feed, vertical tab, form feed, carriage return, space, no-break space.\<close>

definition isWhiteSpace :: "char \<Rightarrow> bool" where
  "isWhiteSpace c = (charCode c \<in> {9, 10, 11, 12, 13, 32, 160})"

definition trim :: "string \<Rightarrow> string" where
  "trim s = rev (dropWhile isWhiteSpace (rev (dropWhile isWhiteSpace s)))"

definition isUpper :: "char \<Rightarrow> bool" where
  "isUpper c = (65 \<le> charCode c \<and> charCode c \<le> 90)"

definition isLower :: "char \<Rightarrow> bool" where
  "isLower c = (97 \<le> charCode c \<and> charCode c \<le> 122)"

definition isDigit :: "char \<Rightarrow> bool" where
  "isDigit c = (48 \<le> charCode c \<and> charCode c \<le> 57)"

text \<open>The class \<open>\w\<close>, and the two classes of the pattern of \<open>isLikelySitemapXml\<close>.\<close>

definition isWordChar :: "char \<Rightarrow> bool" where
  "isWordChar c = (isUpper c \<or> isLower c \<or> isDigit c \<or> c = CHR ''_'')"

definition isPrefixStart :: "char \<Rightarrow> bool" where
  "isPrefixStart c = (isUpper c \<or> isLower c \<or> c = CHR ''_'')"

definition isPrefixChar :: "char \<Rightarrow> bool" where
  "isPrefixChar c = (isWordChar c \<or> c = CHR ''.'' \<or> c = CHR ''-'')"

text \<open>Case folding of the flag \<open>i\<close> (without the flag \<open>u\<close>): only the letters A to Z
  have a partner.\<close>

definition toLower :: "char \<Rightarrow> char" where
  "toLower c = (if isUpper c then char_of (charCode c + 32) else c)"

text \<open>\<open>startsWithCI w s\<close> returns what follows \<open>w\<close> in \<open>s\<close> when \<open>s\<close> starts with \<open>w\<close>,
  letter case ignored (\<open>w\<close> is in lower case).\<close>

fun startsWithCI :: "string \<Rightarrow> string \<Rightarrow> string option" where
  "startsWithCI [] s = Some s"
| "startsWithCI (w # ws) [] = None"
| "startsWithCI (w # ws) (c # cs) = (if toLower c = w then startsWithCI ws cs else None)"

fun containsCI :: "string \<Rightarrow> string \<Rightarrow> bool" where
  "containsCI w [] = (w = [])"
| "containsCI w (c # cs) = (startsWithCI w (c # cs) \<noteq> None \<or> containsCI w cs)"

text \<open>Decimal digits of a number, as a template literal prints it.\<close>

fun showNat :: "nat \<Rightarrow> string" where
  "showNat n = (if n < 10 then [char_of (48 + n)] else showNat (n div 10) @ [char_of (48 + n mod 10)])"

declare showNat.simps [simp del]

definition showInt :: "int \<Rightarrow> string" where
  "showInt i = (if i < 0 then CHR ''-'' # showNat (nat (- i)) else showNat (nat i))"

text \<open>
  Numbers: \<open>Math.max\<close> and \<open>Math.min\<close> return NaN when an argument is NaN, a comparison
  with NaN is false, and a template literal prints NaN as \<open>NaN\<close>.
\<close>

datatype number = NaN | Num int

definition mathMax :: "number \<Rightarrow> number \<Rightarrow> number" where
  "mathMax a b =
     (case a of NaN \<Rightarrow> NaN | Num x \<Rightarrow> (case b of NaN \<Rightarrow> NaN | Num y \<Rightarrow> Num (max x y)))"

definition mathMin :: "number \<Rightarrow> number \<Rightarrow> number" where
  "mathMin a b =
     (case a of NaN \<Rightarrow> NaN | Num x \<Rightarrow> (case b of NaN \<Rightarrow> NaN | Num y \<Rightarrow> Num (min x y)))"

definition numLess :: "number \<Rightarrow> number \<Rightarrow> bool" where
  "numLess a b =
     (case a of NaN \<Rightarrow> False | Num x \<Rightarrow> (case b of NaN \<Rightarrow> False | Num y \<Rightarrow> x < y))"

definition numLessEq :: "number \<Rightarrow> number \<Rightarrow> bool" where
  "numLessEq a b =
     (case a of NaN \<Rightarrow> False | Num x \<Rightarrow> (case b of NaN \<Rightarrow> False | Num y \<Rightarrow> x \<le> y))"

definition showNumber :: "number \<Rightarrow> string" where
  "showNumber a = (case a of NaN \<Rightarrow> ''NaN'' | Num i \<Rightarrow> showInt i)"

text \<open>\<open>Array.prototype.join\<close>.\<close>

fun join :: "string \<Rightarrow> string list \<Rightarrow> string" where
  "join sep [] = []"
| "join sep [x] = x"
| "join sep (x # y # ys) = x @ sep @ join sep (y # ys)"

section \<open>The validation gate\<close>

text \<open>
  \<open>isLikelySitemapXml\<close> tests the pattern
  \<^verbatim>\<open>/<\s*(?:[A-Za-z_][\w.-]*:)?(urlset|sitemapindex)\b/i\<close>.
  \<open>rootName s\<close>: \<open>s\<close> starts with one of the two names, and a word boundary follows.
  \<open>afterLt s\<close>: the pattern matches \<open>s\<close> from the position behind a \<open><\<close>: white space,
  then the name, or a prefix, a colon and the name. A colon is no prefix character, so the
  prefix is the longest run of prefix characters.
\<close>

definition wordBoundary :: "string \<Rightarrow> bool" where
  "wordBoundary s = (case s of [] \<Rightarrow> True | c # _ \<Rightarrow> \<not> isWordChar c)"

definition rootName :: "string \<Rightarrow> bool" where
  "rootName s =
     ((case startsWithCI ''urlset'' s of Some r \<Rightarrow> wordBoundary r | None \<Rightarrow> False) \<or>
      (case startsWithCI ''sitemapindex'' s of Some r \<Rightarrow> wordBoundary r | None \<Rightarrow> False))"

definition afterLt :: "string \<Rightarrow> bool" where
  "afterLt s =
     (let r = dropWhile isWhiteSpace s in
      rootName r \<or>
      (case r of
         [] \<Rightarrow> False
       | c # cs \<Rightarrow> isPrefixStart c \<and>
           (case dropWhile isPrefixChar cs of
              [] \<Rightarrow> False
            | d # ds \<Rightarrow> d = CHR '':'' \<and> rootName ds)))"

fun isLikelySitemapXml :: "string \<Rightarrow> bool" where
  "isLikelySitemapXml [] = False"
| "isLikelySitemapXml (c # cs) = ((c = CHR ''<'' \<and> afterLt cs) \<or> isLikelySitemapXml cs)"

section \<open>Timed invocation\<close>

text \<open>
  What the awaited \<open>fetch\<close> and \<open>res.text()\<close> of one invocation end with: a response with
  its status and body, or a rejection, of which only the message is observed.
\<close>

datatype fetch_end = Response nat string | Rejects string

definition resOk :: "nat \<Rightarrow> bool" where
  "resOk status = (200 \<le> status \<and> status \<le> 299)"

text \<open>The message of the error a fetch rejects with when its signal is aborted.\<close>

definition abortMessage :: string where
  "abortMessage = ''signal is aborted without reason''"

text \<open>The test \<^verbatim>\<open>/aborted|abort/i\<close> of the catch block.\<close>

definition abortShaped :: "string \<Rightarrow> bool" where
  "abortShaped msg = (containsCI ''aborted'' msg \<or> containsCI ''abort'' msg)"

text \<open>\<open>Math.round(timeoutMs / 1000)\<close> rounds a half upwards, and is NaN for NaN.\<close>

definition roundSeconds :: "number \<Rightarrow> number" where
  "roundSeconds timeoutMs =
     (case timeoutMs of NaN \<Rightarrow> NaN | Num ms \<Rightarrow> Num ((ms + 500) div 1000))"

definition timeoutMessage :: "number \<Rightarrow> string" where
  "timeoutMessage timeoutMs = ''timeout after '' @ showNumber (roundSeconds timeoutMs) @ ''s''"

text \<open>The try block of \<open>fetchTextWithTimeout\<close>: \<open>Inr\<close> the text returned, \<open>Inl\<close> the message
  of the error thrown.\<close>

definition tryFetch :: "fetch_end \<Rightarrow> string + string" where
  "tryFetch fe =
     (case fe of
        Response status body \<Rightarrow> if \<not> resOk status then Inl (''HTTP '' @ showNat status) else Inr body
      | Rejects msg \<Rightarrow> Inl msg)"

text \<open>\<open>fetchTextWithTimeout\<close>, try and catch: what the invocation settles with.\<close>

definition fetchTextWithTimeout :: "number \<Rightarrow> fetch_end \<Rightarrow> string + string" where
  "fetchTextWithTimeout timeoutMs fe =
     (case tryFetch fe of
        Inr text \<Rightarrow> Inr text
      | Inl msg \<Rightarrow> if abortShaped msg then Inl (timeoutMessage timeoutMs) else Inl msg)"

section \<open>Configuration and strategies\<close>

text \<open>\<open>signal\<close>: \<open>None\<close> when the caller gives no signal, else whether the signal is already
  aborted at the call.\<close>

record FetchSitemapTextConfig =
  perStrategyTimeoutMs :: "number option"
  overallTimeoutMs :: "number option"
  signal :: "bool option"

definition effectivePerStrategyTimeoutMs :: "FetchSitemapTextConfig \<Rightarrow> number" where
  "effectivePerStrategyTimeoutMs config =
     mathMax (Num 4000) (case perStrategyTimeoutMs config of None \<Rightarrow> Num 12000 | Some v \<Rightarrow> v)"

definition effectiveOverallTimeoutMs :: "FetchSitemapTextConfig \<Rightarrow> number" where
  "effectiveOverallTimeoutMs config =
     mathMax (effectivePerStrategyTimeoutMs config)
       (case overallTimeoutMs config of None \<Rightarrow> Num 15000 | Some v \<Rightarrow> v)"

text \<open>
  A strategy: its name, the deadline its \<open>run\<close> passes to \<open>fetchTextWithTimeout\<close>, and what
  \<open>run\<close> does with the text fetched (nothing, but for Jina).
\<close>

record strategy =
  name :: string
  timeoutMs :: number
  post :: "string \<Rightarrow> string"

definition run :: "strategy \<Rightarrow> fetch_end \<Rightarrow> string + string" where
  "run s fe =
     (case fetchTextWithTimeout (timeoutMs s) fe of
        Inl msg \<Rightarrow> Inl msg
      | Inr text \<Rightarrow> Inr (post s text))"

text \<open>
  The four \<open>strategies.push\<close> calls. \<open>adaptJinaMarkdownToSitemapXml\<close> is imported from a
  module that is not part of the sources at hand; it is the parameter \<open>adapt\<close>, \<open>None\<close> for
  a null result.
\<close>

definition strategies :: "(string \<Rightarrow> string \<Rightarrow> string option) \<Rightarrow> string \<Rightarrow> number \<Rightarrow> strategy list" where
  "strategies adapt trimmed perStrategy =
     [\<lparr>name = ''API'', timeoutMs = mathMin (Num 25000) (mathMax perStrategy (Num 12000)),
        post = (\<lambda>text. text)\<rparr>,
      \<lparr>name = ''Direct'', timeoutMs = Num 8000, post = (\<lambda>text. text)\<rparr>,
      \<lparr>name = ''AllOrigins'', timeoutMs = perStrategy, post = (\<lambda>text. text)\<rparr>,
      \<lparr>name = ''Jina'', timeoutMs = perStrategy,
        post = (\<lambda>text. case adapt text trimmed of None \<Rightarrow> text | Some xml \<Rightarrow> xml)\<rparr>]"

section \<open>The race\<close>

text \<open>
  The state of one race, after the synchronous part of \<open>fetchSitemapTextRaced\<close>:
  \<^item> \<open>strategySet\<close>: the array \<open>strategies\<close>;
  \<^item> \<open>pending\<close>: the strategies whose \<open>run\<close> has not settled; \<open>timers\<close>: the names of the
    invocations whose deadline timer is set;
  \<^item> \<open>isDone\<close>, \<open>completed\<close>, \<open>errors\<close>: the variables \<open>done\<close>, \<open>completed\<close>, \<open>errors\<close>;
  \<^item> \<open>raceAborted\<close>: \<open>raceAbort.signal.aborted\<close>;
  \<^item> \<open>overallTimer\<close>: the overall deadline timer is set; \<open>overallMs\<close>: its delay;
  \<^item> \<open>extSignal\<close>: \<open>config.signal\<close>, as in the configuration; \<open>linked\<close>: the handler of
    \<open>linkAbortSignals\<close> is registered on it; \<open>cancelListener\<close>: the listener of the promise
    \<open>overallTimeout\<close> is registered on it; \<open>cancelDue\<close>: the signal has been aborted
    during the race, and this listener has not run yet;
  \<^item> \<open>runnerP\<close>, \<open>overallP\<close>: the promises of \<open>runner()\<close> and \<open>overallTimeout\<close>, \<open>None\<close>
    while pending; \<open>runnerP\<close> is rejected with a message (\<open>Inl\<close>) or resolved with a name
    and a text (\<open>Inr\<close>), \<open>overallP\<close> can only be rejected;
  \<^item> \<open>outcome\<close>: what the promise of \<open>fetchSitemapTextRaced\<close> settles with, \<open>Inl\<close> the
    message of the error, \<open>Inr\<close> the text.
\<close>

record race =
  strategySet :: "strategy list"
  pending :: "strategy list"
  timers :: "string list"
  isDone :: bool
  completed :: nat
  errors :: "string list"
  raceAborted :: bool
  overallTimer :: bool
  overallMs :: number
  extSignal :: "bool option"
  linked :: bool
  cancelListener :: bool
  cancelDue :: bool
  runnerP :: "(string + string \<times> string) option"
  overallP :: "string option"
  outcome :: "(string + string) option"

text \<open>
  \<open>Promise.race([runner(), overallTimeout])\<close> settles as the first of the two does, and the
  \<open>finally\<close> block removes the handler of \<open>linkAbortSignals\<close>. A settled promise stays as
  it is.
\<close>

definition raceSettles :: "string + string \<Rightarrow> race \<Rightarrow> race" where
  "raceSettles r st = (if outcome st = None then st\<lparr>outcome := Some r, linked := False\<rparr> else st)"

definition resolveRunner :: "string \<times> string \<Rightarrow> race \<Rightarrow> race" where
  "resolveRunner v st =
     (if runnerP st = None then raceSettles (Inr (snd v)) (st\<lparr>runnerP := Some (Inr v)\<rparr>) else st)"

definition rejectRunner :: "string \<Rightarrow> race \<Rightarrow> race" where
  "rejectRunner msg st =
     (if runnerP st = None then raceSettles (Inl msg) (st\<lparr>runnerP := Some (Inl msg)\<rparr>) else st)"

definition rejectOverall :: "string \<Rightarrow> race \<Rightarrow> race" where
  "rejectOverall msg st =
     (if overallP st = None then raceSettles (Inl msg) (st\<lparr>overallP := Some msg\<rparr>) else st)"

text \<open>
  \<open>raceAbort.abort()\<close>. Cancellation is cooperative: the pending invocations are signalled,
  and each ends by an event of its own (a rejection with the abort message, or whatever it
  had completed with already).
\<close>

definition abortRace :: "race \<Rightarrow> race" where
  "abortRace st = st\<lparr>raceAborted := True\<rparr>"

definition finishRejectIfAllFailed :: "race \<Rightarrow> race" where
  "finishRejectIfAllFailed st =
     (if \<not> isDone st \<and> completed st \<ge> length (strategySet st)
      then rejectRunner (''All strategies failed: '' @ join '' | '' (errors st)) st
      else st)"

text \<open>The \<open>catch\<close> callback of the runner's loop, for strategy \<open>s\<close> and message \<open>msg\<close>.\<close>

definition onRejected :: "strategy \<Rightarrow> string \<Rightarrow> race \<Rightarrow> race" where
  "onRejected s msg st =
     finishRejectIfAllFailed
       (st\<lparr>errors := errors st @ [name s @ '': '' @ msg], completed := completed st + 1\<rparr>)"

text \<open>The \<open>then\<close> callback of the runner's loop; what it throws goes to the \<open>catch\<close>
  callback.\<close>

definition onFulfilled :: "strategy \<Rightarrow> string \<Rightarrow> race \<Rightarrow> race" where
  "onFulfilled s text st =
     (if isDone st then st
      else if \<not> isLikelySitemapXml text then onRejected s ''not sitemap XML'' st
      else resolveRunner (name s, text) (abortRace (st\<lparr>isDone := True\<rparr>)))"

definition settled :: "strategy \<Rightarrow> string + string \<Rightarrow> race \<Rightarrow> race" where
  "settled s r st = (case r of Inr text \<Rightarrow> onFulfilled s text st | Inl msg \<Rightarrow> onRejected s msg st)"

text \<open>
  The invocation named \<open>n\<close> ends with \<open>fe\<close>, if it is pending: the \<open>finally\<close> block of
  \<open>fetchTextWithTimeout\<close> clears its timer, and the run of the strategy settles.
\<close>

definition invocationEnds :: "string \<Rightarrow> fetch_end \<Rightarrow> race \<Rightarrow> race" where
  "invocationEnds n fe st =
     (case find (\<lambda>s. name s = n) (pending st) of
        None \<Rightarrow> st
      | Some s \<Rightarrow>
          settled s (run s fe)
            (st\<lparr>pending := filter (\<lambda>s. name s \<noteq> n) (pending st), timers := removeAll n (timers st)\<rparr>))"

text \<open>
  The events of the event loop, each processed as a whole:
  \<^item> the fetch of an invocation ends;
  \<^item> the deadline timer of an invocation fires: its controller is aborted, and its fetch
    rejects with the abort message;
  \<^item> the overall deadline timer fires;
  \<^item> the signal of the caller is aborted, and the first of its listeners, the handler of
    \<open>linkAbortSignals\<close>, runs;
  \<^item> the second listener, the one of the promise \<open>overallTimeout\<close>, runs. When a script
    calls \<open>abort()\<close>, the two listeners run one after the other and this event follows the
    abort at once. When the browser dispatches the abort itself (as for a signal made by
    \<open>AbortSignal.timeout\<close>), the microtasks queued by the first listener run before the
    second one: the fetches aborted by the first listener end in between.
\<close>

datatype event =
    FetchEnds string fetch_end
  | InvocationTimer string
  | OverallTimer
  | ExternalAbort
  | CancelListener

definition overallTimeoutMessage :: "number \<Rightarrow> string" where
  "overallTimeoutMessage ms =
     ''All strategies timed out after '' @ showNumber (roundSeconds ms) @ ''s''"

definition onOverallTimer :: "race \<Rightarrow> race" where
  "onOverallTimer st =
     (if overallTimer st
      then rejectOverall (overallTimeoutMessage (overallMs st)) (abortRace (st\<lparr>overallTimer := False\<rparr>))
      else st)"

definition onExternalAbort :: "race \<Rightarrow> race" where
  "onExternalAbort st =
     (if extSignal st = Some False then
        (let st1 = st\<lparr>extSignal := Some True, cancelDue := cancelListener st\<rparr>
         in if linked st1 then abortRace (st1\<lparr>linked := False\<rparr>) else st1)
      else st)"

definition onCancelListener :: "race \<Rightarrow> race" where
  "onCancelListener st =
     (if cancelDue st
      then rejectOverall ''Cancelled''
             (st\<lparr>overallTimer := False, cancelListener := False, cancelDue := False\<rparr>)
      else st)"

fun step :: "event \<Rightarrow> race \<Rightarrow> race" where
  "step (FetchEnds n fe) st = invocationEnds n fe st"
| "step (InvocationTimer n) st =
     (if n \<in> set (timers st) then invocationEnds n (Rejects abortMessage) st else st)"
| "step OverallTimer st = onOverallTimer st"
| "step ExternalAbort st = onExternalAbort st"
| "step CancelListener st = onCancelListener st"

definition runEvents :: "event list \<Rightarrow> race \<Rightarrow> race" where
  "runEvents es st = foldl (\<lambda>st e. step e st) st es"

text \<open>
  The synchronous part of \<open>fetchSitemapTextRaced\<close>: the error thrown, or the state in which
  the four strategies are launched, with the effects performed on the way.
\<close>

datatype effect =
    NewAbortController
  | LinkAbortSignals
  | SetOverallTimer number
  | AddAbortListener
  | Launch string number

definition initialRace :: "FetchSitemapTextConfig \<Rightarrow> strategy list \<Rightarrow> race" where
  "initialRace config ss =
     \<lparr>strategySet = ss,
      pending = ss,
      timers = map name ss,
      isDone = False,
      completed = 0,
      errors = [],
      raceAborted = (signal config = Some True),
      overallTimer = True,
      overallMs = effectiveOverallTimeoutMs config,
      extSignal = signal config,
      linked = (signal config = Some False),
      cancelListener = (signal config \<noteq> None),
      cancelDue = False,
      runnerP = None,
      overallP = None,
      outcome = None\<rparr>"

definition startRace ::
  "(string \<Rightarrow> string \<Rightarrow> string option) \<Rightarrow> string \<Rightarrow> FetchSitemapTextConfig \<Rightarrow> effect list \<times> (string + race)" where
  "startRace adapt targetUrl config =
     (let trimmed = trim targetUrl in
      if trimmed = [] then ([], Inl ''URL is required'')
      else
        let ss = strategies adapt trimmed (effectivePerStrategyTimeoutMs config) in
        if length ss = 0
        then ([NewAbortController, LinkAbortSignals], Inl ''No fetch strategies available'')
        else
          ([NewAbortController, LinkAbortSignals, SetOverallTimer (effectiveOverallTimeoutMs config)]
             @ (if signal config \<noteq> None then [AddAbortListener] else [])
             @ map (\<lambda>s. Launch (name s) (timeoutMs s)) ss,
           Inr (initialRace config ss)))"

text \<open>\<open>fetchSitemapTextRaced\<close> under the events \<open>es\<close>: \<open>None\<close> while its promise is pending.\<close>

definition fetchSitemapTextRaced ::
  "(string \<Rightarrow> string \<Rightarrow> string option) \<Rightarrow> string \<Rightarrow> FetchSitemapTextConfig \<Rightarrow> event list
     \<Rightarrow> (string + string) option" where
  "fetchSitemapTextRaced adapt targetUrl config es =
     (case snd (startRace adapt targetUrl config) of
        Inl msg \<Rightarrow> Some (Inl msg)
      | Inr st \<Rightarrow> outcome (runEvents es st))"

section \<open>Notions used by the properties\<close>

text \<open>The names of the strategies launched, in the order of the launches.\<close>

fun launched :: "effect list \<Rightarrow> string list" where
  "launched [] = []"
| "launched (Launch n d # effs) = n # launched effs"
| "launched (e # effs) = launched effs"

text \<open>The events that come from the strategies, not from the overall timer or the caller.\<close>

fun isStrategyEvent :: "event \<Rightarrow> bool" where
  "isStrategyEvent (FetchEnds n fe) = True"
| "isStrategyEvent (InvocationTimer n) = True"
| "isStrategyEvent OverallTimer = False"
| "isStrategyEvent ExternalAbort = False"
| "isStrategyEvent CancelListener = False"

text \<open>
  The settlement order, read from the events alone: \<open>settlements ps es\<close> lists each strategy
  of \<open>ps\<close> that \<open>es\<close> brings to an end, with what its fetch ended with, in the order of the
  events. \<open>failureReason\<close> is the reason a strategy that does not win is reported with.
\<close>

fun endOf :: "event \<Rightarrow> (string \<times> fetch_end) option" where
  "endOf (FetchEnds n fe) = Some (n, fe)"
| "endOf (InvocationTimer n) = Some (n, Rejects abortMessage)"
| "endOf OverallTimer = None"
| "endOf ExternalAbort = None"
| "endOf CancelListener = None"

fun settlements :: "strategy list \<Rightarrow> event list \<Rightarrow> (strategy \<times> fetch_end) list" where
  "settlements ps [] = []"
| "settlements ps (e # es) =
     (case endOf e of
        None \<Rightarrow> settlements ps es
      | Some (n, fe) \<Rightarrow>
          (case find (\<lambda>s. name s = n) ps of
             None \<Rightarrow> settlements ps es
           | Some s \<Rightarrow> (s, fe) # settlements (filter (\<lambda>s. name s \<noteq> n) ps) es))"

definition failureReason :: "strategy \<Rightarrow> fetch_end \<Rightarrow> string" where
  "failureReason s fe = (case run s fe of Inl msg \<Rightarrow> msg | Inr text \<Rightarrow> ''not sitemap XML'')"

definition entry :: "strategy \<times> fetch_end \<Rightarrow> string" where
  "entry p = name (fst p) @ '': '' @ failureReason (fst p) (snd p)"

text \<open>What holds of the state of every race, whatever the events.\<close>

definition wellFormed :: "race \<Rightarrow> bool" where
  "wellFormed st \<longleftrightarrow>
     distinct (map name (pending st)) \<and>
     timers st = map name (pending st) \<and>
     0 < length (strategySet st) \<and>
     completed st = length (errors st) \<and>
     (\<not> isDone st \<longrightarrow> completed st + length (pending st) = length (strategySet st)) \<and>
     (runnerP st = None \<longleftrightarrow> \<not> isDone st \<and> completed st < length (strategySet st)) \<and>
     (outcome st = None \<longleftrightarrow> runnerP st = None \<and> overallP st = None) \<and>
     (extSignal st = Some False \<longrightarrow> cancelListener st) \<and>
     (cancelDue st \<longrightarrow> extSignal st = Some True)"

text \<open>A configuration, an adapter and a race to evaluate the properties on.\<close>

definition exampleConfig :: FetchSitemapTextConfig where
  "exampleConfig = \<lparr>perStrategyTimeoutMs = None, overallTimeoutMs = None, signal = Some False\<rparr>"

definition tightConfig :: FetchSitemapTextConfig where
  "tightConfig =
     \<lparr>perStrategyTimeoutMs = Some (Num 4000), overallTimeoutMs = Some (Num 5000), signal = None\<rparr>"

text \<open>Configurations with a timeout that is NaN, and one whose signal is aborted at the call.\<close>

definition nanPerStrategyConfig :: FetchSitemapTextConfig where
  "nanPerStrategyConfig = \<lparr>perStrategyTimeoutMs = Some NaN, overallTimeoutMs = None, signal = None\<rparr>"

definition nanOverallConfig :: FetchSitemapTextConfig where
  "nanOverallConfig = \<lparr>perStrategyTimeoutMs = None, overallTimeoutMs = Some NaN, signal = None\<rparr>"

definition abortedConfig :: FetchSitemapTextConfig where
  "abortedConfig = \<lparr>perStrategyTimeoutMs = None, overallTimeoutMs = None, signal = Some True\<rparr>"

text \<open>The four fetches reject with the abort message.\<close>

definition allAborted :: "event list" where
  "allAborted =
     [FetchEnds ''API'' (Rejects abortMessage),
      FetchEnds ''Direct'' (Rejects abortMessage),
      FetchEnds ''AllOrigins'' (Rejects abortMessage),
      FetchEnds ''Jina'' (Rejects abortMessage)]"

definition noAdapter :: "string \<Rightarrow> string \<Rightarrow> string option" where
  "noAdapter text url = None"

definition exampleRace :: race where
  "exampleRace =
     initialRace exampleConfig
       (strategies noAdapter ''example.com/sitemap.xml'' (effectivePerStrategyTimeoutMs exampleConfig))"

text \<open>Events after which the four strategies have failed, each in its own way.\<close>

definition allFail :: "event list" where
  "allFail =
     [InvocationTimer ''Direct'',
      FetchEnds ''API'' (Response 403 ''Forbidden''),
      FetchEnds ''AllOrigins'' (Response 200 ''<html>''),
      FetchEnds ''Jina'' (Rejects ''Failed to fetch'')]"

section \<open>Strings and messages\<close>

lemma dropWhile_all: "\<forall>c\<in>set s. P c \<Longrightarrow> dropWhile P s = []"
  by (induction s) auto

lemma trim_blank: "\<forall>c\<in>set s. isWhiteSpace c \<Longrightarrow> trim s = []"
  by (simp add: trim_def dropWhile_all)

lemma toLower_a: "toLower c = CHR ''a'' \<Longrightarrow> charCode c = 97 \<or> charCode c = 65"
proof (cases "isUpper c")
  case True
  assume "toLower c = CHR ''a''"
  with True have "char_of (charCode c + 32) = CHR ''a''" by (simp add: toLower_def)
  then have "(charCode c + 32) mod 256 = 97" by (simp add: char_of_eq_iff take_bit_eq_mod)
  moreover from True have "charCode c + 32 < 256" by (simp add: isUpper_def)
  ultimately show ?thesis by simp
next
  case False
  assume "toLower c = CHR ''a''"
  with False have "c = CHR ''a''" by (simp add: toLower_def)
  then show ?thesis by (simp add: charCode_def)
qed

lemma showNat_chars: "c \<in> set (showNat n) \<Longrightarrow> isDigit c"
proof (induction n rule: showNat.induct)
  case (1 n)
  show ?case
  proof (cases "n < 10")
    case True
    with 1(2) show ?thesis by (simp add: showNat.simps[of n] isDigit_def charCode_def)
  next
    case False
    with 1 show ?thesis
      by (auto simp add: showNat.simps[of n] isDigit_def charCode_def)
  qed
qed

lemma no_first_no_match:
  "\<forall>c\<in>set s. toLower c \<noteq> w \<Longrightarrow> \<not> containsCI (w # ws) s"
  by (induction s) auto

text \<open>The message of an HTTP error passes the catch block as it is.\<close>

lemma http_not_abort: "\<not> abortShaped (''HTTP '' @ showNat status)"
proof -
  have "toLower c \<noteq> CHR ''a''" if "c \<in> set (''HTTP '' @ showNat status)" for c
  proof
    assume "toLower c = CHR ''a''"
    then have a: "charCode c = 97 \<or> charCode c = 65" by (rule toLower_a)
    from that have "c \<in> set ''HTTP '' \<or> isDigit c" by (auto dest: showNat_chars)
    with a show False by (auto simp add: isDigit_def charCode_def)
  qed
  then have "\<forall>c\<in>set (''HTTP '' @ showNat status). toLower c \<noteq> CHR ''a''" by blast
  then show ?thesis
    unfolding abortShaped_def by (metis no_first_no_match)
qed

lemma abortMessage_shaped: "abortShaped abortMessage"
  by code_simp

lemma run_abort: "run s (Rejects abortMessage) = Inl (timeoutMessage (timeoutMs s))"
  by (simp add: run_def fetchTextWithTimeout_def tryFetch_def abortMessage_shaped)

section \<open>Timeouts\<close>

text \<open>For a configuration without NaN the two clamps hold.\<close>

lemma clamped_finite_timeouts:
  assumes "perStrategyTimeoutMs config \<noteq> Some NaN" and "overallTimeoutMs config \<noteq> Some NaN"
  shows "effectivePerStrategyTimeoutMs config =
           (case perStrategyTimeoutMs config of
              None \<Rightarrow> Num 12000
            | Some v \<Rightarrow> if numLess v (Num 4000) then Num 4000 else v) \<and>
         effectiveOverallTimeoutMs config =
           (let per = effectivePerStrategyTimeoutMs config;
                configured = (case overallTimeoutMs config of None \<Rightarrow> Num 15000 | Some v \<Rightarrow> v)
            in if numLess configured per then per else configured) \<and>
         numLessEq (Num 4000) (effectivePerStrategyTimeoutMs config) \<and>
         numLessEq (effectivePerStrategyTimeoutMs config) (effectiveOverallTimeoutMs config)"
proof -
  obtain p where p: "(case perStrategyTimeoutMs config of None \<Rightarrow> Num 12000 | Some v \<Rightarrow> v) = Num p"
    using assms(1) by (cases "perStrategyTimeoutMs config"; simp) (metis number.exhaust)
  obtain q where q: "(case overallTimeoutMs config of None \<Rightarrow> Num 15000 | Some v \<Rightarrow> v) = Num q"
    using assms(2) by (cases "overallTimeoutMs config"; simp) (metis number.exhaust)
  have per: "effectivePerStrategyTimeoutMs config = Num (max 4000 p)"
    using p by (simp add: effectivePerStrategyTimeoutMs_def mathMax_def)
  have overall: "effectiveOverallTimeoutMs config = Num (max (max 4000 p) q)"
    using per q by (simp add: effectiveOverallTimeoutMs_def mathMax_def)
  have 1: "effectivePerStrategyTimeoutMs config =
           (case perStrategyTimeoutMs config of
              None \<Rightarrow> Num 12000
            | Some v \<Rightarrow> if numLess v (Num 4000) then Num 4000 else v)"
    using p per by (auto simp add: numLess_def max_def split: option.splits)
  have 2: "effectiveOverallTimeoutMs config =
           (let per = effectivePerStrategyTimeoutMs config;
                configured = (case overallTimeoutMs config of None \<Rightarrow> Num 15000 | Some v \<Rightarrow> v)
            in if numLess configured per then per else configured)"
    unfolding q per overall by (simp add: numLess_def Let_def max_def)
  have 3: "numLessEq (Num 4000) (effectivePerStrategyTimeoutMs config)"
    unfolding per by (simp add: numLessEq_def)
  have 4: "numLessEq (effectivePerStrategyTimeoutMs config) (effectiveOverallTimeoutMs config)"
    unfolding per overall by (simp add: numLessEq_def)
  show ?thesis using 1 2 3 4 by blast
qed

text \<open>
  C7 asks that for every configuration the effective per-strategy timeout is at least
  4000 ms and the effective overall timeout at least the per-strategy timeout. The code
  clamps with \<open>Math.max\<close>, which returns NaN for a timeout that is NaN: with a per-strategy
  timeout NaN both effective timeouts are NaN, and the overall timer, API, AllOrigins and
  Jina are started with the delay NaN; with an overall timeout NaN the effective overall
  timeout is NaN next to a per-strategy timeout of 12000 ms. Neither floor holds there.
\<close>

theorem nan_timeout_not_clamped:
  "effectivePerStrategyTimeoutMs nanPerStrategyConfig = NaN \<and>
   effectiveOverallTimeoutMs nanPerStrategyConfig = NaN \<and>
   \<not> numLessEq (Num 4000) (effectivePerStrategyTimeoutMs nanPerStrategyConfig) \<and>
   \<not> numLessEq (effectivePerStrategyTimeoutMs nanPerStrategyConfig)
       (effectiveOverallTimeoutMs nanPerStrategyConfig) \<and>
   fst (startRace noAdapter ''example.com'' nanPerStrategyConfig)
     = [NewAbortController, LinkAbortSignals, SetOverallTimer NaN, Launch ''API'' NaN,
        Launch ''Direct'' (Num 8000), Launch ''AllOrigins'' NaN, Launch ''Jina'' NaN] \<and>
   effectivePerStrategyTimeoutMs nanOverallConfig = Num 12000 \<and>
   effectiveOverallTimeoutMs nanOverallConfig = NaN \<and>
   \<not> numLessEq (effectivePerStrategyTimeoutMs nanOverallConfig)
       (effectiveOverallTimeoutMs nanOverallConfig) \<and>
   fetchSitemapTextRaced noAdapter ''example.com'' nanPerStrategyConfig [OverallTimer]
     = Some (Inl ''All strategies timed out after NaNs'')"
  by code_simp

section \<open>The empty target\<close>

text \<open>
  C9. If the target is empty or consists of white space only, \<open>fetchSitemapTextRaced\<close> fails
  with the error \<open>URL is required\<close>, whatever the events: no effect has been performed (no
  controller, no link, no timer, no listener, no strategy launched), and the message is this
  one alone, not an aggregate of strategy failures.
\<close>

theorem empty_target_fails_fast:
  "\<forall>c\<in>set targetUrl. isWhiteSpace c \<Longrightarrow>
     startRace adapt targetUrl config = ([], Inl ''URL is required'') \<and>
     fetchSitemapTextRaced adapt targetUrl config es = Some (Inl ''URL is required'')"
  by (simp add: startRace_def fetchSitemapTextRaced_def trim_blank)

theorem empty_target_fails_fast_witness:
  "list_all isWhiteSpace '' '' \<and>
   startRace noAdapter '' '' exampleConfig = ([], Inl ''URL is required'') \<and>
   fetchSitemapTextRaced noAdapter '' '' exampleConfig [FetchEnds ''API'' (Response 200 ''<urlset>'')]
     = Some (Inl ''URL is required'')"
proof -
  have h: "\<forall>c\<in>set '' ''. isWhiteSpace c" by (simp add: isWhiteSpace_def charCode_def)
  show ?thesis using h empty_target_fails_fast [OF h] by (simp add: list_all_iff)
qed

section \<open>The strategy set\<close>

text \<open>
  C10. Whatever the target and the configuration, the strategies are the four named API,
  Direct, AllOrigins and Jina, in this order; a race that starts launches these four in this
  order and has them all pending; and the error \<open>No fetch strategies available\<close> is never
  the result of the start.
\<close>

theorem fixed_strategy_set:
  "map name (strategies adapt trimmed perStrategy) = [''API'', ''Direct'', ''AllOrigins'', ''Jina''] \<and>
   snd (startRace adapt targetUrl config) \<noteq> Inl ''No fetch strategies available'' \<and>
   (\<forall>effs st. startRace adapt targetUrl config = (effs, Inr st) \<longrightarrow>
      launched effs = [''API'', ''Direct'', ''AllOrigins'', ''Jina''] \<and>
      map name (strategySet st) = [''API'', ''Direct'', ''AllOrigins'', ''Jina''] \<and>
      pending st = strategySet st)"
  by (auto simp add: startRace_def strategies_def Let_def initialRace_def)

theorem fixed_strategy_set_witness:
  "launched (fst (startRace noAdapter ''example.com'' tightConfig)) = [''API'', ''Direct'', ''AllOrigins'', ''Jina'']"
proof -
  obtain effs r where e: "startRace noAdapter ''example.com'' tightConfig = (effs, r)"
    by (cases "startRace noAdapter ''example.com'' tightConfig")
  have "\<exists>st. r = Inr st"
    using e by (auto simp add: startRace_def Let_def trim_def isWhiteSpace_def charCode_def
        strategies_def split: if_splits)
  then obtain st where "r = Inr st" by blast
  with e fixed_strategy_set [of noAdapter "''x''" NaN "''example.com''" tightConfig]
  show ?thesis by simp
qed

section \<open>Rejections of a timed invocation\<close>

text \<open>
  C4, as the code has it. A rejection whose message does not contain \<open>abort\<close> (in any
  letter case) is passed on with its message, and a response that is not ok is rejected
  with \<open>HTTP\<close> and its status. Every rejection whose message contains \<open>abort\<close> becomes the
  message \<open>timeout after Ns\<close> of the invocation's own deadline: so does the rejection that
  an abort of the shared signal causes. There is no outcome for a cancellation apart from
  this one.
\<close>

theorem timed_invocation_rejections:
  "fetchTextWithTimeout t (Rejects msg) = Inl (if abortShaped msg then timeoutMessage t else msg) \<and>
   fetchTextWithTimeout t (Rejects abortMessage) = Inl (timeoutMessage t) \<and>
   (\<not> resOk status \<longrightarrow>
      fetchTextWithTimeout t (Response status body) = Inl (''HTTP '' @ showNat status))"
  using http_not_abort [of status]
  by (simp add: fetchTextWithTimeout_def tryFetch_def abortMessage_shaped del: append.simps)

theorem timed_invocation_rejections_witness:
  "\<not> resOk 403 \<and>
   fetchTextWithTimeout (Num 8000) (Response 403 ''Forbidden'') = Inl ''HTTP 403'' \<and>
   fetchTextWithTimeout (Num 8000) (Rejects ''Failed to fetch'') = Inl ''Failed to fetch''"
proof -
  have h: "\<not> resOk 403" by (simp add: resOk_def)
  have a: "\<not> abortShaped ''Failed to fetch''" by code_simp
  have s: "showNat 403 = ''403''" by code_simp
  show ?thesis
    using h a s timed_invocation_rejections [of "Num 8000" "''Failed to fetch''" 403 "''Forbidden''"]
    by simp
qed

text \<open>
  The claim as stated fails: Direct cancelled through the shared signal (aborted by the
  overall timer), Direct stopped by its own deadline, and Direct broken with a message that
  mentions an abort are all reported by the same entry.
\<close>

theorem cancelled_reported_as_timeout:
  "errors (runEvents [OverallTimer, FetchEnds ''Direct'' (Rejects abortMessage)] exampleRace)
     = [''Direct: timeout after 8s''] \<and>
   errors (runEvents [InvocationTimer ''Direct''] exampleRace) = [''Direct: timeout after 8s''] \<and>
   errors (runEvents [FetchEnds ''Direct'' (Rejects ''Connection aborted by peer'')] exampleRace)
     = [''Direct: timeout after 8s'']"
  by code_simp

section \<open>Every state of a race is well formed\<close>

lemma find_filter_length:
  "distinct (map name ps) \<Longrightarrow> find (\<lambda>s. name s = n) ps = Some s \<Longrightarrow>
     Suc (length (filter (\<lambda>s. name s \<noteq> n) ps)) = length ps"
proof (induction ps)
  case Nil then show ?case by simp
next
  case (Cons p ps)
  show ?case
  proof (cases "name p = n")
    case True
    with Cons.prems have "\<forall>q\<in>set ps. name q \<noteq> n" by (auto simp add: image_iff)
    then have "filter (\<lambda>s. name s \<noteq> n) ps = ps" by (simp add: filter_id_conv)
    with True show ?thesis by simp
  next
    case False
    with Cons show ?thesis by simp
  qed
qed

lemma removeAll_names:
  "removeAll n (map name ps) = map name (filter (\<lambda>s. name s \<noteq> n) ps)"
  by (induction ps) auto

text \<open>The two callbacks run in a state in which the invocation has ended and the
  settlement is not counted yet.\<close>

lemma wellFormed_onRejected:
  assumes "distinct (map name (pending st))" "timers st = map name (pending st)"
    "0 < length (strategySet st)" "completed st = length (errors st)"
    "\<not> isDone st \<longrightarrow> Suc (completed st + length (pending st)) = length (strategySet st)"
    "runnerP st = None \<longleftrightarrow> \<not> isDone st \<and> completed st < length (strategySet st)"
    "outcome st = None \<longleftrightarrow> runnerP st = None \<and> overallP st = None"
    "extSignal st = Some False \<longrightarrow> cancelListener st"
    "cancelDue st \<longrightarrow> extSignal st = Some True"
  shows "wellFormed (onRejected s msg st)"
  using assms
  by (auto simp add: wellFormed_def onRejected_def finishRejectIfAllFailed_def rejectRunner_def raceSettles_def)

lemma wellFormed_onFulfilled:
  assumes "distinct (map name (pending st))" "timers st = map name (pending st)"
    "0 < length (strategySet st)" "completed st = length (errors st)"
    "\<not> isDone st \<longrightarrow> Suc (completed st + length (pending st)) = length (strategySet st)"
    "runnerP st = None \<longleftrightarrow> \<not> isDone st \<and> completed st < length (strategySet st)"
    "outcome st = None \<longleftrightarrow> runnerP st = None \<and> overallP st = None"
    "extSignal st = Some False \<longrightarrow> cancelListener st"
    "cancelDue st \<longrightarrow> extSignal st = Some True"
  shows "wellFormed (onFulfilled s text st)"
proof (cases "\<not> isDone st \<and> \<not> isLikelySitemapXml text")
  case True
  then show ?thesis using wellFormed_onRejected[OF assms] by (simp add: onFulfilled_def)
next
  case False
  then show ?thesis using assms
    by (auto simp add: wellFormed_def onFulfilled_def resolveRunner_def abortRace_def raceSettles_def)
qed

lemma wellFormed_invocationEnds:
  assumes "wellFormed st"
  shows "wellFormed (invocationEnds n fe st)"
proof (cases "find (\<lambda>s. name s = n) (pending st)")
  case None
  then show ?thesis using assms by (simp add: invocationEnds_def)
next
  case (Some s)
  let ?st = "st\<lparr>pending := filter (\<lambda>s. name s \<noteq> n) (pending st), timers := removeAll n (timers st)\<rparr>"
  from assms have d: "distinct (map name (pending st))" by (simp add: wellFormed_def)
  have len: "Suc (length (filter (\<lambda>s. name s \<noteq> n) (pending st))) = length (pending st)"
    using find_filter_length[OF d Some] .
  have 1: "distinct (map name (pending ?st))" using d by (simp add: distinct_map_filter)
  have 2: "timers ?st = map name (pending ?st)" using assms by (simp add: wellFormed_def removeAll_names)
  have 3: "0 < length (strategySet ?st)" using assms by (simp add: wellFormed_def)
  have 4: "completed ?st = length (errors ?st)" using assms by (simp add: wellFormed_def)
  have 5: "\<not> isDone ?st \<longrightarrow> Suc (completed ?st + length (pending ?st)) = length (strategySet ?st)"
    using assms len unfolding wellFormed_def by auto
  have 6: "runnerP ?st = None \<longleftrightarrow> \<not> isDone ?st \<and> completed ?st < length (strategySet ?st)"
    using assms by (simp add: wellFormed_def)
  have 7: "outcome ?st = None \<longleftrightarrow> runnerP ?st = None \<and> overallP ?st = None"
    using assms by (simp add: wellFormed_def)
  have 8: "extSignal ?st = Some False \<longrightarrow> cancelListener ?st"
    using assms by (simp add: wellFormed_def)
  have 9: "cancelDue ?st \<longrightarrow> extSignal ?st = Some True"
    using assms by (simp add: wellFormed_def)
  have "wellFormed (settled s (run s fe) ?st)"
    unfolding settled_def
    using wellFormed_onRejected[OF 1 2 3 4 5 6 7 8 9] wellFormed_onFulfilled[OF 1 2 3 4 5 6 7 8 9]
    by (simp split: sum.split)
  with Some show ?thesis by (simp add: invocationEnds_def)
qed

lemma wellFormed_onOverallTimer: "wellFormed st \<Longrightarrow> wellFormed (onOverallTimer st)"
  by (auto simp add: wellFormed_def onOverallTimer_def rejectOverall_def abortRace_def raceSettles_def)

lemma wellFormed_onExternalAbort: "wellFormed st \<Longrightarrow> wellFormed (onExternalAbort st)"
  by (auto simp add: wellFormed_def onExternalAbort_def abortRace_def Let_def)

lemma wellFormed_onCancelListener: "wellFormed st \<Longrightarrow> wellFormed (onCancelListener st)"
  by (auto simp add: wellFormed_def onCancelListener_def rejectOverall_def raceSettles_def)

lemma wellFormed_step: "wellFormed st \<Longrightarrow> wellFormed (step e st)"
  by (cases e)
    (simp_all add: wellFormed_invocationEnds wellFormed_onOverallTimer wellFormed_onExternalAbort
      wellFormed_onCancelListener)

lemma wellFormed_runEvents: "wellFormed st \<Longrightarrow> wellFormed (runEvents es st)"
  unfolding runEvents_def by (induction es arbitrary: st) (simp_all add: wellFormed_step)

lemma wellFormed_initialRace:
  "wellFormed (initialRace config (strategies adapt trimmed per))"
  by (auto simp add: wellFormed_def initialRace_def strategies_def)

lemma startRace_wellFormed:
  "snd (startRace adapt targetUrl config) = Inr st \<Longrightarrow> wellFormed st"
  by (auto simp add: startRace_def Let_def wellFormed_initialRace split: if_splits)

section \<open>What the events keep\<close>

text \<open>What no event undoes.\<close>

lemma invocationEnds_sticky:
  "(runnerP st = Some v \<longrightarrow> runnerP (invocationEnds n fe st) = Some v) \<and>
   (isDone st \<longrightarrow> isDone (invocationEnds n fe st)) \<and>
   (raceAborted st \<longrightarrow> raceAborted (invocationEnds n fe st)) \<and>
   (outcome st = Some r \<longrightarrow> outcome (invocationEnds n fe st) = Some r) \<and>
   strategySet (invocationEnds n fe st) = strategySet st \<and>
   overallP (invocationEnds n fe st) = overallP st \<and>
   overallTimer (invocationEnds n fe st) = overallTimer st \<and>
   extSignal (invocationEnds n fe st) = extSignal st"
  by (simp add: invocationEnds_def settled_def onFulfilled_def onRejected_def
      finishRejectIfAllFailed_def resolveRunner_def rejectRunner_def raceSettles_def abortRace_def
      split: option.split sum.split)

lemma step_sticky:
  "(runnerP st = Some v \<longrightarrow> runnerP (step e st) = Some v) \<and>
   (isDone st \<longrightarrow> isDone (step e st)) \<and>
   (raceAborted st \<longrightarrow> raceAborted (step e st)) \<and>
   (outcome st = Some r \<longrightarrow> outcome (step e st) = Some r) \<and>
   strategySet (step e st) = strategySet st"
proof (cases e)
  case (FetchEnds n fe)
  then show ?thesis using invocationEnds_sticky [of st v n fe r] by simp
next
  case (InvocationTimer n)
  then show ?thesis using invocationEnds_sticky [of st v n "Rejects abortMessage" r] by simp
next
  case OverallTimer
  then show ?thesis
    by (simp add: onOverallTimer_def rejectOverall_def raceSettles_def abortRace_def)
next
  case ExternalAbort
  then show ?thesis
    by (simp add: onExternalAbort_def rejectOverall_def raceSettles_def abortRace_def Let_def)
next
  case CancelListener
  then show ?thesis
    by (simp add: onCancelListener_def rejectOverall_def raceSettles_def)
qed

lemma runEvents_Cons: "runEvents (e # es) st = runEvents es (step e st)"
  by (simp add: runEvents_def)

lemma runEvents_append: "runEvents (es @ es') st = runEvents es' (runEvents es st)"
  by (simp add: runEvents_def)

lemma runEvents_sticky:
  "(runnerP st = Some v \<longrightarrow> runnerP (runEvents es st) = Some v) \<and>
   (isDone st \<longrightarrow> isDone (runEvents es st)) \<and>
   (raceAborted st \<longrightarrow> raceAborted (runEvents es st)) \<and>
   (outcome st = Some r \<longrightarrow> outcome (runEvents es st) = Some r) \<and>
   strategySet (runEvents es st) = strategySet st"
proof (induction es arbitrary: st)
  case Nil
  show ?case by (simp add: runEvents_def)
next
  case (Cons e es)
  show ?case using Cons [of "step e st"] step_sticky [of st v e r]
    by (simp add: runEvents_Cons)
qed

text \<open>The events of the strategies leave the overall timer, its promise and the signal of the caller alone.\<close>

lemma strategy_step_keeps:
  "isStrategyEvent e \<Longrightarrow>
     overallP (step e st) = overallP st \<and> overallTimer (step e st) = overallTimer st \<and>
     extSignal (step e st) = extSignal st"
  using invocationEnds_sticky by (cases e) simp_all

lemma strategy_events_keep:
  "\<forall>e\<in>set es. isStrategyEvent e \<Longrightarrow>
     overallP (runEvents es st) = overallP st \<and> overallTimer (runEvents es st) = overallTimer st \<and>
     extSignal (runEvents es st) = extSignal st"
proof (induction es arbitrary: st)
  case Nil
  show ?case by (simp add: runEvents_def)
next
  case (Cons e es)
  then show ?case using strategy_step_keeps [of e st] by (simp add: runEvents_Cons)
qed

lemma extSignal_step: "ExternalAbort \<noteq> e \<Longrightarrow> extSignal (step e st) = extSignal st"
  using invocationEnds_sticky
  by (cases e)
    (simp_all add: onOverallTimer_def onCancelListener_def rejectOverall_def raceSettles_def
      abortRace_def)

lemma extSignal_runEvents: "ExternalAbort \<notin> set es \<Longrightarrow> extSignal (runEvents es st) = extSignal st"
  by (induction es arbitrary: st) (simp_all add: runEvents_def extSignal_step)


section \<open>The winner\<close>

lemma find_name: "find (\<lambda>s. name s = n) ps = Some s \<Longrightarrow> name s = n \<and> s \<in> set ps"
  by (induction ps) (auto split: if_splits)

lemma find_member:
  "distinct (map name ps) \<Longrightarrow> s \<in> set ps \<Longrightarrow> find (\<lambda>x. name x = name s) ps = Some s"
  by (induction ps) (auto simp add: image_iff)

text \<open>While a strategy is pending and no winner is declared, the runner's promise is pending.\<close>

lemma pending_runner:
  assumes "wellFormed st" "\<not> isDone st" "pending st \<noteq> []"
  shows "runnerP st = None"
proof -
  from assms(3) have "0 < length (pending st)" by simp
  moreover from assms(1,2) have "completed st + length (pending st) = length (strategySet st)"
    by (simp add: wellFormed_def)
  ultimately have "completed st < length (strategySet st)" by linarith
  with assms(1,2) show ?thesis by (simp add: wellFormed_def)
qed

lemma winner_step:
  assumes "runnerP st = None" "\<not> isDone st"
    and "find (\<lambda>s. name s = n) (pending st) = Some s"
    and "run s fe = Inr text" "isLikelySitemapXml text"
  shows "step (FetchEnds n fe) st =
           resolveRunner (n, text)
             (abortRace (st\<lparr>pending := filter (\<lambda>s. name s \<noteq> n) (pending st),
                 timers := removeAll n (timers st), isDone := True\<rparr>))"
  using assms find_name [OF assms(3)]
  by (simp add: invocationEnds_def settled_def onFulfilled_def)

text \<open>
  C1. In a race, when the invocation of a pending strategy \<open>n\<close> ends, its run returns a text
  that passes the gate, and no winner is declared yet: the race controller is aborted and the
  winner flag set in the state in which the runner's promise, pending until then, is
  resolved with \<open>n\<close> and the text. Whatever events follow, settlements of other strategies
  with texts that pass the gate among them, the runner's promise keeps this value, the
  flag and the abort stay, and if the race had not settled before, its result is the text.
\<close>

theorem winner_declared_once:
  assumes "snd (startRace adapt targetUrl config) = Inr st0"
    and "st = runEvents es st0"
    and "\<not> isDone st"
    and "find (\<lambda>s. name s = n) (pending st) = Some s"
    and "run s fe = Inr text"
    and "isLikelySitemapXml text"
  shows "(\<exists>mid. raceAborted mid \<and> isDone mid \<and> runnerP mid = None \<and>
            step (FetchEnds n fe) st = resolveRunner (n, text) mid) \<and>
         (\<forall>later. runnerP (runEvents later (step (FetchEnds n fe) st)) = Some (Inr (n, text)) \<and>
            isDone (runEvents later (step (FetchEnds n fe) st)) \<and>
            raceAborted (runEvents later (step (FetchEnds n fe) st)) \<and>
            (outcome st = None \<longrightarrow>
               outcome (runEvents later (step (FetchEnds n fe) st)) = Some (Inr text)))"
proof -
  let ?mid = "abortRace (st\<lparr>pending := filter (\<lambda>s. name s \<noteq> n) (pending st),
                 timers := removeAll n (timers st), isDone := True\<rparr>)"
  let ?st' = "step (FetchEnds n fe) st"
  have wf: "wellFormed st"
    using assms(1,2) startRace_wellFormed wellFormed_runEvents by blast
  from assms(4) have ne: "pending st \<noteq> []" by auto
  have rp: "runnerP st = None" using pending_runner [OF wf assms(3) ne] .
  have eq: "?st' = resolveRunner (n, text) ?mid"
    using winner_step [OF rp assms(3,4,5,6)] .
  have mid: "raceAborted ?mid \<and> isDone ?mid \<and> runnerP ?mid = None"
    using rp by (simp add: abortRace_def)
  have now: "runnerP ?st' = Some (Inr (n, text)) \<and> isDone ?st' \<and> raceAborted ?st' \<and>
             (outcome st = None \<longrightarrow> outcome ?st' = Some (Inr text))"
    unfolding eq using rp by (simp add: resolveRunner_def raceSettles_def abortRace_def)
  have "runnerP (runEvents later ?st') = Some (Inr (n, text)) \<and>
        isDone (runEvents later ?st') \<and> raceAborted (runEvents later ?st') \<and>
        (outcome st = None \<longrightarrow> outcome (runEvents later ?st') = Some (Inr text))" for later
    using now runEvents_sticky [of ?st' "Inr (n, text)" later "Inr text"] by blast
  with eq mid show ?thesis by blast
qed


section \<open>Results of the race\<close>

lemma fetchSitemapTextRaced_started:
  "snd (startRace adapt targetUrl config) = Inr st0 \<Longrightarrow>
     fetchSitemapTextRaced adapt targetUrl config es = outcome (runEvents es st0)"
  by (simp add: fetchSitemapTextRaced_def)

text \<open>
  C2. In a race whose events so far come from the strategies only (no overall timeout, no
  abort by the caller) and have declared no winner, the result is still pending, whatever
  rejections and texts failing the gate these events brought; and when then the invocation
  of a pending strategy ends and its run returns a text that passes the gate, the result of
  \<open>fetchSitemapTextRaced\<close> is this text, whatever follows.
\<close>

theorem first_valid_strategy_wins:
  assumes "snd (startRace adapt targetUrl config) = Inr st0"
    and "\<forall>e\<in>set pre. isStrategyEvent e"
    and "\<not> isDone (runEvents pre st0)"
    and "find (\<lambda>s. name s = n) (pending (runEvents pre st0)) = Some s"
    and "run s fe = Inr text"
    and "isLikelySitemapXml text"
  shows "fetchSitemapTextRaced adapt targetUrl config pre = None \<and>
         fetchSitemapTextRaced adapt targetUrl config (pre @ FetchEnds n fe # rest) = Some (Inr text)"
proof -
  let ?st = "runEvents pre st0"
  have wf0: "wellFormed st0" using assms(1) by (rule startRace_wellFormed)
  have wf: "wellFormed ?st" using wf0 by (rule wellFormed_runEvents)
  from assms(4) have ne: "pending ?st \<noteq> []" by auto
  have rp: "runnerP ?st = None" using pending_runner [OF wf assms(3) ne] .
  have "overallP st0 = None"
    using assms(1) by (auto simp add: startRace_def Let_def initialRace_def split: if_splits)
  then have op: "overallP ?st = None" using strategy_events_keep [OF assms(2)] by simp
  have pend: "outcome ?st = None" using wf rp op by (simp add: wellFormed_def)
  have eq: "step (FetchEnds n fe) ?st =
      resolveRunner (n, text)
        (abortRace (?st\<lparr>pending := filter (\<lambda>s. name s \<noteq> n) (pending ?st),
           timers := removeAll n (timers ?st), isDone := True\<rparr>))"
    using winner_step [OF rp assms(3,4,5,6)] .
  have "outcome (step (FetchEnds n fe) ?st) = Some (Inr text)"
    unfolding eq using rp pend by (simp add: resolveRunner_def raceSettles_def abortRace_def)
  then have "outcome (runEvents rest (step (FetchEnds n fe) ?st)) = Some (Inr text)"
    using runEvents_sticky by blast
  then have "outcome (runEvents (pre @ FetchEnds n fe # rest) st0) = Some (Inr text)"
    by (simp add: runEvents_append runEvents_Cons)
  with pend show ?thesis by (simp add: fetchSitemapTextRaced_started [OF assms(1)])
qed

text \<open>
  When a script aborts a signal of the caller that was not aborted at the call, while the
  result is pending, the two listeners run one after the other and the result is the error
  \<open>Cancelled\<close>, whatever follows.
\<close>

lemma script_abort_rejects:
  assumes "snd (startRace adapt targetUrl config) = Inr st0"
    and "signal config = Some False"
    and "ExternalAbort \<notin> set es"
    and "fetchSitemapTextRaced adapt targetUrl config es = None"
  shows "fetchSitemapTextRaced adapt targetUrl config (es @ ExternalAbort # CancelListener # later)
           = Some (Inl ''Cancelled'')"
proof -
  let ?st = "runEvents es st0"
  let ?st1 = "step ExternalAbort ?st"
  have wf0: "wellFormed st0" using assms(1) by (rule startRace_wellFormed)
  have wf: "wellFormed ?st" using wf0 by (rule wellFormed_runEvents)
  have "extSignal st0 = Some False"
    using assms(1,2) by (auto simp add: startRace_def Let_def initialRace_def split: if_splits)
  then have sig: "extSignal ?st = Some False" using extSignal_runEvents [OF assms(3)] by simp
  have pend: "outcome ?st = None"
    using assms(4) by (simp add: fetchSitemapTextRaced_started [OF assms(1)])
  from wf sig have cl: "cancelListener ?st" by (simp add: wellFormed_def)
  from wf pend have op: "overallP ?st = None" by (simp add: wellFormed_def)
  have due: "cancelDue ?st1 \<and> overallP ?st1 = None \<and> outcome ?st1 = None"
    using sig cl op pend by (simp add: onExternalAbort_def abortRace_def Let_def)
  then have "outcome (step CancelListener ?st1) = Some (Inl ''Cancelled'')"
    by (simp add: onCancelListener_def rejectOverall_def raceSettles_def)
  then have "outcome (runEvents later (step CancelListener ?st1)) = Some (Inl ''Cancelled'')"
    using runEvents_sticky by blast
  then have "outcome (runEvents (es @ ExternalAbort # CancelListener # later) st0)
      = Some (Inl ''Cancelled'')"
    by (simp add: runEvents_append runEvents_Cons)
  then show ?thesis by (simp add: fetchSitemapTextRaced_started [OF assms(1)])
qed

section \<open>The settlement order\<close>

lemma find_None_filter:
  "find (\<lambda>s. name s = n) ps = None \<Longrightarrow> filter (\<lambda>s. name s \<noteq> n) ps = ps"
  by (induction ps) (auto split: if_splits)

lemma not_timer_find:
  "n \<notin> set (map name ps) \<Longrightarrow> find (\<lambda>s. name s = n) ps = None"
  by (induction ps) auto

lemma invocationEnds_pending:
  "pending (invocationEnds n fe st) = filter (\<lambda>s. name s \<noteq> n) (pending st)"
  by (simp add: invocationEnds_def settled_def onFulfilled_def onRejected_def
      finishRejectIfAllFailed_def resolveRunner_def rejectRunner_def raceSettles_def abortRace_def
      find_None_filter split: option.split sum.split)

lemma invocationEnds_errors:
  assumes "\<not> isDone (invocationEnds n fe st)"
  shows "errors (invocationEnds n fe st) =
           errors st @ (case find (\<lambda>s. name s = n) (pending st) of None \<Rightarrow> [] | Some s \<Rightarrow> [entry (s, fe)])"
  using assms
  by (auto simp add: invocationEnds_def settled_def onFulfilled_def onRejected_def
      finishRejectIfAllFailed_def resolveRunner_def rejectRunner_def raceSettles_def abortRace_def
      entry_def failureReason_def
      split: option.split sum.split if_splits)

lemma step_pending:
  assumes "wellFormed st"
  shows "pending (step e st) =
           (case endOf e of None \<Rightarrow> pending st | Some (n, fe) \<Rightarrow> filter (\<lambda>s. name s \<noteq> n) (pending st))"
proof (cases e)
  case (FetchEnds n fe)
  then show ?thesis by (simp add: invocationEnds_pending)
next
  case (InvocationTimer n)
  from assms have t: "timers st = map name (pending st)" by (simp add: wellFormed_def)
  show ?thesis
  proof (cases "n \<in> set (timers st)")
    case True
    with InvocationTimer show ?thesis by (simp add: invocationEnds_pending)
  next
    case False
    with t have "find (\<lambda>s. name s = n) (pending st) = None" by (simp add: not_timer_find)
    with False InvocationTimer show ?thesis by (simp add: find_None_filter)
  qed
next
  case OverallTimer
  then show ?thesis by (simp add: onOverallTimer_def rejectOverall_def raceSettles_def abortRace_def)
next
  case ExternalAbort
  then show ?thesis 
    by (simp add: onExternalAbort_def rejectOverall_def raceSettles_def abortRace_def Let_def)
next
  case CancelListener
  then show ?thesis
    by (simp add: onCancelListener_def rejectOverall_def raceSettles_def)
qed

lemma step_errors:
  assumes "wellFormed st" "\<not> isDone (step e st)"
  shows "errors (step e st) =
           errors st @
           (case endOf e of
              None \<Rightarrow> []
            | Some (n, fe) \<Rightarrow>
                (case find (\<lambda>s. name s = n) (pending st) of None \<Rightarrow> [] | Some s \<Rightarrow> [entry (s, fe)]))"
proof (cases e)
  case (FetchEnds n fe)
  then show ?thesis using assms(2) by (simp add: invocationEnds_errors)
next
  case (InvocationTimer n)
  from assms have t: "timers st = map name (pending st)" by (simp add: wellFormed_def)
  show ?thesis
  proof (cases "n \<in> set (timers st)")
    case True
    with InvocationTimer show ?thesis using assms(2) by (simp add: invocationEnds_errors)
  next
    case False
    with t have "find (\<lambda>s. name s = n) (pending st) = None" by (simp add: not_timer_find)
    with False InvocationTimer show ?thesis by simp
  qed
next
  case OverallTimer
  then show ?thesis by (simp add: onOverallTimer_def rejectOverall_def raceSettles_def abortRace_def)
next
  case ExternalAbort
  then show ?thesis 
    by (simp add: onExternalAbort_def rejectOverall_def raceSettles_def abortRace_def Let_def)
next
  case CancelListener
  then show ?thesis
    by (simp add: onCancelListener_def rejectOverall_def raceSettles_def)
qed

lemma settlements_Cons:
  "settlements ps (e # es) =
     (case endOf e of
        None \<Rightarrow> settlements ps es
      | Some (n, fe) \<Rightarrow>
          (case find (\<lambda>s. name s = n) ps of None \<Rightarrow> [] | Some s \<Rightarrow> [(s, fe)])
            @ settlements (filter (\<lambda>s. name s \<noteq> n) ps) es)"
  by (simp add: find_None_filter split: option.split)

lemma not_done_before:
  "\<not> isDone (runEvents es (step e st)) \<Longrightarrow> \<not> isDone (step e st)"
  using runEvents_sticky by blast

lemma runEvents_errors:
  assumes "wellFormed st" "\<not> isDone (runEvents es st)"
  shows "errors (runEvents es st) = errors st @ map entry (settlements (pending st) es)"
  using assms
proof (induction es arbitrary: st)
  case Nil
  show ?case by (simp add: runEvents_def)
next
  case (Cons e es)
  from Cons.prems(2) have nd: "\<not> isDone (runEvents es (step e st))" by (simp add: runEvents_Cons)
  then have nd1: "\<not> isDone (step e st)" by (rule not_done_before)
  have wf1: "wellFormed (step e st)" using Cons.prems(1) by (rule wellFormed_step)
  have "errors (runEvents es (step e st)) =
          errors (step e st) @ map entry (settlements (pending (step e st)) es)"
    using Cons.IH [OF wf1 nd] .
  then show ?case
    unfolding runEvents_Cons settlements_Cons
    by (simp add: step_errors [OF Cons.prems(1) nd1] step_pending [OF Cons.prems(1)]
        split: option.split)
qed

lemma settlements_subset: "fst ` set (settlements ps es) \<subseteq> set ps"
proof (induction es arbitrary: ps)
  case Nil
  show ?case by simp
next
  case (Cons e es)
  show ?case
  proof (cases "endOf e")
    case None
    then show ?thesis using Cons [of ps] by simp
  next
    case (Some p)
    obtain n fe where p: "p = (n, fe)" by (cases p)
    show ?thesis
    proof (cases "find (\<lambda>s. name s = n) ps")
      case None
      with Some p show ?thesis using Cons [of ps] by simp
    next
      case (Some s)
      then have "s \<in> set ps" using find_name by blast
      moreover have "fst ` set (settlements (filter (\<lambda>s. name s \<noteq> n) ps) es) \<subseteq> set ps"
        using Cons [of "filter (\<lambda>s. name s \<noteq> n) ps"] by auto
      ultimately show ?thesis using Some \<open>endOf e = Some p\<close> p by simp
    qed
  qed
qed

lemma settlements_distinct: "distinct (map (\<lambda>p. name (fst p)) (settlements ps es))"
proof (induction es arbitrary: ps)
  case Nil
  show ?case by simp
next
  case (Cons e es)
  show ?case
  proof (cases "endOf e")
    case None
    then show ?thesis using Cons [of ps] by simp
  next
    case (Some p)
    obtain n fe where p: "p = (n, fe)" by (cases p)
    show ?thesis
    proof (cases "find (\<lambda>s. name s = n) ps")
      case None
      with Some p show ?thesis using Cons [of ps] by simp
    next
      case (Some s)
      then have ns: "name s = n" using find_name by blast
      have "fst ` set (settlements (filter (\<lambda>s. name s \<noteq> n) ps) es) \<subseteq> set (filter (\<lambda>s. name s \<noteq> n) ps)"
        by (rule settlements_subset)
      then have "\<forall>q\<in>set (settlements (filter (\<lambda>s. name s \<noteq> n) ps) es). name (fst q) \<noteq> n"
        by auto
      then have "n \<notin> (\<lambda>p. name (fst p)) ` set (settlements (filter (\<lambda>s. name s \<noteq> n) ps) es)"
        by auto
      with ns Some \<open>endOf e = Some p\<close> p Cons [of "filter (\<lambda>s. name s \<noteq> n) ps"]
      show ?thesis by simp
    qed
  qed
qed

text \<open>Who is still pending.\<close>

lemma runEvents_pending:
  assumes "wellFormed st"
  shows "pending (runEvents es st) =
           filter (\<lambda>s. name s \<notin> (\<lambda>p. name (fst p)) ` set (settlements (pending st) es)) (pending st)"
  using assms
proof (induction es arbitrary: st)
  case Nil
  show ?case by (simp add: runEvents_def)
next
  case (Cons e es)
  have wf1: "wellFormed (step e st)" using Cons.prems by (rule wellFormed_step)
  show ?case
  proof (cases "endOf e")
    case None
    then show ?thesis
      using Cons.IH [OF wf1] step_pending [OF Cons.prems, of e] by (simp add: runEvents_Cons)
  next
    case (Some p)
    obtain n fe where p: "p = (n, fe)" by (cases p)
    let ?ps = "filter (\<lambda>s. name s \<noteq> n) (pending st)"
    let ?S = "(\<lambda>p. name (fst p)) ` set (settlements ?ps es)"
    have sp: "pending (step e st) = ?ps"
      using step_pending [OF Cons.prems, of e] Some p by simp
    have ih: "pending (runEvents es (step e st)) = filter (\<lambda>s. name s \<notin> ?S) ?ps"
      using Cons.IH [OF wf1] sp by simp
    have ff: "filter (\<lambda>s. name s \<notin> ?S) ?ps = filter (\<lambda>s. name s \<notin> insert n ?S) (pending st)"
      by (induction "pending st") auto
    show ?thesis
    proof (cases "find (\<lambda>s. name s = n) (pending st)")
      case None
      then have "?ps = pending st" by (rule find_None_filter)
      with None Some p ih show ?thesis by (simp add: runEvents_Cons)
    next
      case (Some s)
      then have "name s = n" using find_name by blast
      then have "(\<lambda>p. name (fst p)) ` set (settlements (pending st) (e # es)) = insert n ?S"
        using Some \<open>endOf e = Some p\<close> p by simp
      then show ?thesis using ih ff by (simp only: runEvents_Cons)
    qed
  qed
qed

lemma all_settled_names:
  assumes "wellFormed st" "pending (runEvents es st) = []"
  shows "(\<lambda>p. name (fst p)) ` set (settlements (pending st) es) = name ` set (pending st)"
proof
  show "(\<lambda>p. name (fst p)) ` set (settlements (pending st) es) \<subseteq> name ` set (pending st)"
    using settlements_subset [of "pending st" es] by auto
next
  have "filter (\<lambda>s. name s \<notin> (\<lambda>p. name (fst p)) ` set (settlements (pending st) es)) (pending st) = []"
    using runEvents_pending [OF assms(1)] assms(2) by simp
  then have "\<forall>s\<in>set (pending st). name s \<in> (\<lambda>p. name (fst p)) ` set (settlements (pending st) es)"
    by (simp add: filter_empty_conv)
  then show "name ` set (pending st) \<subseteq> (\<lambda>p. name (fst p)) ` set (settlements (pending st) es)"
    by auto
qed

section \<open>All strategies failed\<close>

text \<open>The step that settles a race without a winner rejects it with the errors collected.\<close>

lemma invocationEnds_rejects:
  assumes "outcome st = None" "outcome (invocationEnds n fe st) = Some r"
    and "\<not> isDone (invocationEnds n fe st)"
  shows "r = Inl (''All strategies failed: '' @ join '' | '' (errors (invocationEnds n fe st)))"
  using assms
  by (auto simp add: invocationEnds_def settled_def onFulfilled_def onRejected_def
      finishRejectIfAllFailed_def resolveRunner_def rejectRunner_def raceSettles_def abortRace_def
      split: option.splits sum.splits if_splits)

lemma step_rejects:
  assumes "isStrategyEvent e" "outcome st = None" "outcome (step e st) = Some r"
    and "\<not> isDone (step e st)"
  shows "r = Inl (''All strategies failed: '' @ join '' | '' (errors (step e st)))"
proof (cases e)
  case (FetchEnds n fe)
  then show ?thesis using invocationEnds_rejects [of st n fe r] assms by simp
next
  case (InvocationTimer n)
  then show ?thesis using invocationEnds_rejects [of st n "Rejects abortMessage" r] assms
    by (simp split: if_splits)
next
  case OverallTimer
  with assms(1) show ?thesis by simp
next
  case ExternalAbort
  with assms(1) show ?thesis by simp
next
  case CancelListener
  with assms(1) show ?thesis by simp
qed

lemma settled_no_pending:
  assumes "wellFormed st" "\<not> isDone st" "runnerP st \<noteq> None"
  shows "pending st = []"
proof -
  from assms have "\<not> completed st < length (strategySet st)" by (simp add: wellFormed_def)
  moreover from assms have "completed st + length (pending st) = length (strategySet st)"
    by (simp add: wellFormed_def)
  ultimately have "length (pending st) = 0" by linarith
  then show ?thesis by simp
qed

lemma settlements_Nil: "settlements [] es = []"
  by (induction es) (auto split: option.split)

lemma all_failed_outcome:
  assumes "wellFormed st" "\<forall>e\<in>set es. isStrategyEvent e" "outcome st = None"
    and "\<not> isDone (runEvents es st)" "pending (runEvents es st) = []"
  shows "outcome (runEvents es st) =
           Some (Inl (''All strategies failed: '' @ join '' | '' (errors (runEvents es st))))"
  using assms
proof (induction es arbitrary: st)
  case Nil
  from Nil.prems have "\<not> isDone st" "pending st = []" by (simp_all add: runEvents_def)
  with Nil.prems(1) have "runnerP st \<noteq> None" unfolding wellFormed_def by auto
  with Nil.prems(1,3) show ?case by (simp add: wellFormed_def)
next
  case (Cons e es)
  let ?st1 = "step e st"
  have wf1: "wellFormed ?st1" using Cons.prems(1) by (rule wellFormed_step)
  have ev: "isStrategyEvent e" and evs: "\<forall>e\<in>set es. isStrategyEvent e"
    using Cons.prems(2) by simp_all
  have nd: "\<not> isDone (runEvents es ?st1)" and pe: "pending (runEvents es ?st1) = []"
    using Cons.prems(4,5) by (simp_all add: runEvents_Cons)
  have nd1: "\<not> isDone ?st1" using nd by (rule not_done_before)
  show ?case
  proof (cases "outcome ?st1")
    case None
    then show ?thesis using Cons.IH [OF wf1 evs None nd pe] by (simp add: runEvents_Cons)
  next
    case (Some r)
    have r: "r = Inl (''All strategies failed: '' @ join '' | '' (errors ?st1))"
      using step_rejects [OF ev Cons.prems(3) Some nd1] .
    from Cons.prems(1,3) have "overallP st = None" by (simp add: wellFormed_def)
    then have "overallP ?st1 = None" using strategy_step_keeps [OF ev] by simp
    with wf1 Some have "runnerP ?st1 \<noteq> None" by (auto simp add: wellFormed_def)
    then have "pending ?st1 = []" using settled_no_pending [OF wf1 nd1] by simp
    then have "errors (runEvents es ?st1) = errors ?st1"
      using runEvents_errors [OF wf1 nd] by (simp add: settlements_Nil)
    moreover have "outcome (runEvents es ?st1) = Some r"
      using Some runEvents_sticky by blast
    ultimately show ?thesis using r by (simp add: runEvents_Cons)
  qed
qed

lemma startRace_initial:
  "snd (startRace adapt targetUrl config) = Inr st0 \<Longrightarrow>
     st0 = initialRace config (strategies adapt (trim targetUrl) (effectivePerStrategyTimeoutMs config))"
  by (auto simp add: startRace_def Let_def split: if_splits)

text \<open>
  C3. In a race whose events \<open>es\<close> come from the strategies only, when all strategies have
  settled and none has won, \<open>fetchSitemapTextRaced\<close> is rejected, and stays so whatever
  follows, with the message \<open>All strategies failed:\<close> and the entries \<open>name: reason\<close> of the
  settlements in their order, joined by \<open> | \<close>; each of the four strategies has exactly one
  entry.
\<close>

theorem all_failed_message:
  assumes "snd (startRace adapt targetUrl config) = Inr st0"
    and "\<forall>e\<in>set es. isStrategyEvent e"
    and "pending (runEvents es st0) = []"
    and "\<not> isDone (runEvents es st0)"
  shows "fetchSitemapTextRaced adapt targetUrl config (es @ later) =
           Some (Inl (''All strategies failed: ''
             @ join '' | '' (map entry (settlements (strategySet st0) es)))) \<and>
         distinct (map (\<lambda>p. name (fst p)) (settlements (strategySet st0) es)) \<and>
         set (map (\<lambda>p. name (fst p)) (settlements (strategySet st0) es))
           = {''API'', ''Direct'', ''AllOrigins'', ''Jina''}"
proof -
  have wf0: "wellFormed st0" using assms(1) by (rule startRace_wellFormed)
  have st0: "st0 = initialRace config (strategies adapt (trim targetUrl) (effectivePerStrategyTimeoutMs config))"
    using assms(1) by (rule startRace_initial)
  then have init: "pending st0 = strategySet st0" "errors st0 = []" "outcome st0 = None"
    by (simp_all add: initialRace_def)
  have names: "name ` set (pending st0) = {''API'', ''Direct'', ''AllOrigins'', ''Jina''}"
    using st0 by (auto simp add: initialRace_def strategies_def)
  have "outcome (runEvents es st0) =
          Some (Inl (''All strategies failed: '' @ join '' | '' (errors (runEvents es st0))))"
    using all_failed_outcome [OF wf0 assms(2) init(3) assms(4,3)] .
  moreover have "errors (runEvents es st0) = map entry (settlements (strategySet st0) es)"
    using runEvents_errors [OF wf0 assms(4)] init by simp
  moreover have "(\<lambda>p. name (fst p)) ` set (settlements (strategySet st0) es)
      = {''API'', ''Direct'', ''AllOrigins'', ''Jina''}"
    using all_settled_names [OF wf0 assms(3)] names init(1) by simp
  ultimately have "outcome (runEvents es st0) =
      Some (Inl (''All strategies failed: '' @ join '' | '' (map entry (settlements (strategySet st0) es)))) \<and>
    (\<lambda>p. name (fst p)) ` set (settlements (strategySet st0) es) = {''API'', ''Direct'', ''AllOrigins'', ''Jina''}"
    by simp
  moreover have "outcome (runEvents es st0) = Some r \<longrightarrow> outcome (runEvents (es @ later) st0) = Some r" for r
    using runEvents_sticky by (simp add: runEvents_append)
  ultimately show ?thesis
    using settlements_distinct [of "strategySet st0" es]
    by (simp add: fetchSitemapTextRaced_started [OF assms(1)])
qed

section \<open>Deadlines of the invocations\<close>

lemma step_pending_subset: "wellFormed st \<Longrightarrow> set (pending (step e st)) \<subseteq> set (pending st)"
  by (auto simp add: step_pending split: option.splits)

lemma runEvents_pending_subset:
  "wellFormed st \<Longrightarrow> set (pending (runEvents es st)) \<subseteq> set (pending st)"
  by (simp add: runEvents_pending)

lemma overallMs_step: "overallMs (step e st) = overallMs st"
  by (cases e)
    (simp_all add: invocationEnds_def settled_def onFulfilled_def onRejected_def
      finishRejectIfAllFailed_def resolveRunner_def rejectRunner_def raceSettles_def abortRace_def
      onOverallTimer_def onExternalAbort_def onCancelListener_def rejectOverall_def Let_def
      split: option.split sum.split)

lemma overallMs_runEvents: "overallMs (runEvents es st) = overallMs st"
  by (induction es arbitrary: st) (simp_all add: runEvents_def overallMs_step)

lemma invocation_timer_fires:
  assumes "wellFormed st" "s \<in> set (pending st)"
  shows "errors (step (InvocationTimer (name s)) st)
           = errors st @ [name s @ '': '' @ timeoutMessage (timeoutMs s)] \<and>
         s \<notin> set (pending (step (InvocationTimer (name s)) st)) \<and>
         name s \<notin> set (timers (step (InvocationTimer (name s)) st))"
proof -
  from assms(1) have d: "distinct (map name (pending st))" and t: "timers st = map name (pending st)"
    by (simp_all add: wellFormed_def)
  have f: "find (\<lambda>x. name x = name s) (pending st) = Some s" using find_member [OF d assms(2)] .
  have m: "name s \<in> set (timers st)" using t assms(2) by simp
  have wf1: "wellFormed (step (InvocationTimer (name s)) st)" using assms(1) by (rule wellFormed_step)
  have p: "pending (step (InvocationTimer (name s)) st) = filter (\<lambda>x. name x \<noteq> name s) (pending st)"
    using step_pending [OF assms(1), of "InvocationTimer (name s)"] by simp
  have e: "errors (step (InvocationTimer (name s)) st)
           = errors st @ [name s @ '': '' @ timeoutMessage (timeoutMs s)]"
    using f m
    by (simp add: invocationEnds_def settled_def run_abort onRejected_def finishRejectIfAllFailed_def
        rejectRunner_def raceSettles_def)
  from wf1 have "timers (step (InvocationTimer (name s)) st) = map name (pending (step (InvocationTimer (name s)) st))"
    by (simp add: wellFormed_def)
  with p e show ?thesis by auto
qed

text \<open>
  C8, as the code has it. A pending strategy runs under the deadline of its own invocation:
  API under the per-strategy timeout raised to 12000 ms and cut at 25000 ms, Direct under
  8000 ms, AllOrigins and Jina under the effective per-strategy timeout. When the deadline
  timer of a pending strategy fires, the strategy settles as failed with the entry
  \<open>name: timeout after Ns\<close>. For AllOrigins and Jina the deadline is below the delay of the
  overall timer whenever the overall timeout exceeds the per-strategy timeout.
\<close>

theorem invocation_deadlines:
  assumes "snd (startRace adapt targetUrl config) = Inr st0"
    and "s \<in> set (pending (runEvents es st0))"
  shows "(name s, timeoutMs s) \<in>
           {(''API'', mathMin (Num 25000) (mathMax (effectivePerStrategyTimeoutMs config) (Num 12000))),
            (''Direct'', Num 8000),
            (''AllOrigins'', effectivePerStrategyTimeoutMs config),
            (''Jina'', effectivePerStrategyTimeoutMs config)} \<and>
         errors (step (InvocationTimer (name s)) (runEvents es st0))
           = errors (runEvents es st0) @ [name s @ '': '' @ timeoutMessage (timeoutMs s)] \<and>
         s \<notin> set (pending (step (InvocationTimer (name s)) (runEvents es st0))) \<and>
         (name s = ''AllOrigins'' \<or> name s = ''Jina'' \<longrightarrow>
            timeoutMs s = effectivePerStrategyTimeoutMs config \<and>
            (numLess (effectivePerStrategyTimeoutMs config) (effectiveOverallTimeoutMs config) \<longrightarrow>
               numLess (timeoutMs s) (overallMs (runEvents es st0))))"
proof -
  have wf0: "wellFormed st0" using assms(1) by (rule startRace_wellFormed)
  have wf: "wellFormed (runEvents es st0)" using wf0 by (rule wellFormed_runEvents)
  have st0: "st0 = initialRace config (strategies adapt (trim targetUrl) (effectivePerStrategyTimeoutMs config))"
    using assms(1) by (rule startRace_initial)
  have "s \<in> set (pending st0)" using runEvents_pending_subset [OF wf0, of es] assms(2) by blast
  then have s: "s \<in> set (strategies adapt (trim targetUrl) (effectivePerStrategyTimeoutMs config))"
    using st0 by (simp add: initialRace_def)
  have o: "overallMs (runEvents es st0) = effectiveOverallTimeoutMs config"
    using st0 by (simp add: overallMs_runEvents initialRace_def)
  from s have "(name s, timeoutMs s) \<in>
           {(''API'', mathMin (Num 25000) (mathMax (effectivePerStrategyTimeoutMs config) (Num 12000))),
            (''Direct'', Num 8000),
            (''AllOrigins'', effectivePerStrategyTimeoutMs config),
            (''Jina'', effectivePerStrategyTimeoutMs config)} \<and>
         (name s = ''AllOrigins'' \<or> name s = ''Jina'' \<longrightarrow>
            timeoutMs s = effectivePerStrategyTimeoutMs config)"
    by (auto simp add: strategies_def)
  with o invocation_timer_fires [OF wf assms(2)] show ?thesis by auto
qed

section \<open>The properties on an example race\<close>

lemmas race_defs = runEvents_def invocationEnds_def settled_def onFulfilled_def onRejected_def
  finishRejectIfAllFailed_def resolveRunner_def rejectRunner_def rejectOverall_def raceSettles_def
  abortRace_def onOverallTimer_def onExternalAbort_def onCancelListener_def exampleRace_def
  initialRace_def
  strategies_def exampleConfig_def effectivePerStrategyTimeoutMs_def effectiveOverallTimeoutMs_def
  run_def fetchTextWithTimeout_def tryFetch_def resOk_def noAdapter_def mathMax_def mathMin_def

lemma exampleStart:
  "snd (startRace noAdapter ''example.com/sitemap.xml'' exampleConfig) = Inr exampleRace"
  by (simp add: startRace_def exampleRace_def trim_def isWhiteSpace_def charCode_def strategies_def
      Let_def)

lemma afterAPI:
  "\<not> isDone (runEvents [FetchEnds ''API'' (Response 403 ''Forbidden'')] exampleRace)"
  by code_simp

lemma findDirect:
  "find (\<lambda>s. name s = ''Direct'')
     (pending (runEvents [FetchEnds ''API'' (Response 403 ''Forbidden'')] exampleRace))
     = Some \<lparr>name = ''Direct'', timeoutMs = Num 8000, post = (\<lambda>text. text)\<rparr>"
  by (simp add: race_defs)

lemma runDirect:
  "run \<lparr>name = ''Direct'', timeoutMs = Num 8000, post = (\<lambda>text. text)\<rparr> (Response 200 ''<urlset>'')
     = Inr ''<urlset>''"
  by (simp add: race_defs)

lemma gateUrlset: "isLikelySitemapXml ''<urlset>''"
  by code_simp

theorem winner_declared_once_witness:
  "runnerP (runEvents [FetchEnds ''Jina'' (Response 200 ''<sitemapindex>''), OverallTimer]
      (step (FetchEnds ''Direct'' (Response 200 ''<urlset>''))
        (runEvents [FetchEnds ''API'' (Response 403 ''Forbidden'')] exampleRace)))
     = Some (Inr (''Direct'', ''<urlset>''))"
  using winner_declared_once [OF exampleStart refl afterAPI findDirect runDirect gateUrlset]
  by blast

theorem first_valid_strategy_wins_witness:
  "fetchSitemapTextRaced noAdapter ''example.com/sitemap.xml'' exampleConfig
     [FetchEnds ''API'' (Response 403 ''Forbidden'')] = None \<and>
   fetchSitemapTextRaced noAdapter ''example.com/sitemap.xml'' exampleConfig
     ([FetchEnds ''API'' (Response 403 ''Forbidden'')]
        @ FetchEnds ''Direct'' (Response 200 ''<urlset>'') # [OverallTimer])
     = Some (Inr ''<urlset>'')"
proof -
  have h: "\<forall>e\<in>set [FetchEnds ''API'' (Response 403 ''Forbidden'')]. isStrategyEvent e" by simp
  show ?thesis
    using first_valid_strategy_wins [OF exampleStart h afterAPI findDirect runDirect gateUrlset]
    by blast
qed

text \<open>
  C5 asks that an abort by the caller before a winner is declared and before all strategies
  have settled rejects the race with \<open>Cancelled\<close>, never with the aggregate of the failures.
  The code does so only when a script aborts the signal during the race. With a signal that
  is already aborted at the call, the race controller is aborted from the start, the
  listener that rejects with \<open>Cancelled\<close> is registered and never runs, and when the four
  aborted fetches reject the race is rejected with the aggregate of four timeouts; an abort
  event after that changes nothing. With a signal that the browser aborts during the race,
  the four aborted fetches end between the two listeners, and the race is rejected with
  the same aggregate before the second listener rejects with \<open>Cancelled\<close>.
\<close>

theorem cancelled_reported_as_all_failed:
  "fetchSitemapTextRaced noAdapter ''example.com/sitemap.xml'' abortedConfig allAborted
     = Some (Inl ''All strategies failed: API: timeout after 12s | Direct: timeout after 8s | AllOrigins: timeout after 12s | Jina: timeout after 12s'') \<and>
   fetchSitemapTextRaced noAdapter ''example.com/sitemap.xml'' abortedConfig
     (ExternalAbort # CancelListener # allAborted)
     = Some (Inl ''All strategies failed: API: timeout after 12s | Direct: timeout after 8s | AllOrigins: timeout after 12s | Jina: timeout after 12s'') \<and>
   fetchSitemapTextRaced noAdapter ''example.com/sitemap.xml'' exampleConfig
     (ExternalAbort # allAborted @ [CancelListener])
     = Some (Inl ''All strategies failed: API: timeout after 12s | Direct: timeout after 8s | AllOrigins: timeout after 12s | Jina: timeout after 12s'')"
  by code_simp

text \<open>The same race when a script aborts the signal at once.\<close>

lemma script_abort_example:
  "fetchSitemapTextRaced noAdapter ''example.com/sitemap.xml'' exampleConfig
     ([] @ ExternalAbort # CancelListener # allAborted) = Some (Inl ''Cancelled'')"
proof -
  have a: "signal exampleConfig = Some False" by (simp add: exampleConfig_def)
  have b: "ExternalAbort \<notin> set []" by simp
  have c: "fetchSitemapTextRaced noAdapter ''example.com/sitemap.xml'' exampleConfig [] = None"
    using exampleStart
    by (simp add: fetchSitemapTextRaced_def runEvents_def exampleRace_def initialRace_def)
  show ?thesis using script_abort_rejects [OF exampleStart a b c] by blast
qed

lemma allFail_pending: "pending (runEvents allFail exampleRace) = []"
proof -
  have "map name (pending (runEvents allFail exampleRace)) = []" by code_simp
  then show ?thesis by simp
qed

lemma allFail_not_done: "\<not> isDone (runEvents allFail exampleRace)"
  by code_simp

lemma allFail_entries:
  "map entry (settlements (strategySet exampleRace) allFail)
     = [''Direct: timeout after 8s'', ''API: HTTP 403'', ''AllOrigins: not sitemap XML'',
        ''Jina: Failed to fetch'']"
  by code_simp

theorem all_failed_message_witness:
  "fetchSitemapTextRaced noAdapter ''example.com/sitemap.xml'' exampleConfig (allFail @ [OverallTimer])
     = Some (Inl ''All strategies failed: Direct: timeout after 8s | API: HTTP 403 | AllOrigins: not sitemap XML | Jina: Failed to fetch'')"
proof -
  have h: "\<forall>e\<in>set allFail. isStrategyEvent e" by (simp add: allFail_def)
  show ?thesis
    using all_failed_message [OF exampleStart h allFail_pending allFail_not_done, of "[OverallTimer]"]
    by (simp add: allFail_entries)
qed

lemma allOrigins_pending:
  "\<lparr>name = ''AllOrigins'', timeoutMs = Num 12000, post = (\<lambda>text. text)\<rparr>
     \<in> set (pending (runEvents [] exampleRace))"
  by (simp add: race_defs)

theorem invocation_deadlines_witness:
  "errors (step (InvocationTimer ''AllOrigins'') (runEvents [] exampleRace))
     = [''AllOrigins: timeout after 12s''] \<and>
   numLess (Num 12000) (overallMs (runEvents [] exampleRace))"
proof -
  have t: "timeoutMessage (Num 12000) = ''timeout after 12s''" by code_simp
  have e: "errors (runEvents [] exampleRace) = []" by code_simp
  have p: "effectivePerStrategyTimeoutMs exampleConfig = Num 12000" by code_simp
  have c: "numLess (Num 12000) (effectiveOverallTimeoutMs exampleConfig)" by code_simp
  show ?thesis
    using invocation_deadlines [OF exampleStart allOrigins_pending] t e c
    unfolding p by simp
qed

text \<open>
  The claim C8 as stated fails: with a per-strategy timeout of 4000 ms and an overall
  timeout of 5000 ms, API is launched under a deadline of 12000 ms and Direct under one of
  8000 ms, neither the per-strategy timeout, both beyond the overall timeout.
\<close>

theorem deadlines_not_uniform:
  "effectivePerStrategyTimeoutMs tightConfig = Num 4000 \<and>
   effectiveOverallTimeoutMs tightConfig = Num 5000 \<and>
   fst (startRace noAdapter ''example.com'' tightConfig)
     = [NewAbortController, LinkAbortSignals, SetOverallTimer (Num 5000), Launch ''API'' (Num 12000),
        Launch ''Direct'' (Num 8000), Launch ''AllOrigins'' (Num 4000), Launch ''Jina'' (Num 4000)]"
  by code_simp

section \<open>The overall timer\<close>

text \<open>The events of the strategies never clear the overall timer.\<close>

lemma overall_timer_kept:
  assumes "snd (startRace adapt targetUrl config) = Inr st0" "\<forall>e\<in>set es. isStrategyEvent e"
  shows "overallTimer (runEvents es st0)"
proof -
  have "st0 = initialRace config (strategies adapt (trim targetUrl) (effectivePerStrategyTimeoutMs config))"
    using assms(1) by (rule startRace_initial)
  then have "overallTimer st0" by (simp add: initialRace_def)
  then show ?thesis using strategy_events_keep [OF assms(2), of st0] by simp
qed

text \<open>
  C6 asks that every timer is cleared when the race settles. The code clears the overall
  timer only when the caller aborts: when API wins at once, the race is resolved and the
  overall timer is still set, also after the three other invocations have ended; and when
  the four strategies fail, the race is rejected, the timers of the invocations are all
  cleared, and the overall timer is still set.
\<close>

theorem overall_timer_left_set:
  "outcome (runEvents [FetchEnds ''API'' (Response 200 ''<urlset>'')] exampleRace)
     = Some (Inr ''<urlset>'') \<and>
   overallTimer (runEvents [FetchEnds ''API'' (Response 200 ''<urlset>'')] exampleRace) \<and>
   overallTimer (runEvents [FetchEnds ''API'' (Response 200 ''<urlset>''),
       FetchEnds ''Direct'' (Rejects abortMessage), FetchEnds ''AllOrigins'' (Rejects abortMessage),
       FetchEnds ''Jina'' (Rejects abortMessage)] exampleRace) \<and>
   outcome (runEvents allFail exampleRace)
     = Some (Inl ''All strategies failed: Direct: timeout after 8s | API: HTTP 403 | AllOrigins: not sitemap XML | Jina: Failed to fetch'') \<and>
   timers (runEvents allFail exampleRace) = [] \<and>
   overallTimer (runEvents allFail exampleRace)"
  by code_simp

end
